theory Spec2Isabelle
  imports Complex_Main "HOL-Library.Char_ord" "HOL-Library.List_Lexorder"
begin

section \<open>JavaScript values used by the scraper and the read-API\<close>

text \<open>
  An environment variable is a string or \<open>undefined\<close>; \<open>!x\<close> holds for
  \<open>undefined\<close> and for the empty string, and \<open>a || b\<close> picks \<open>b\<close> exactly then.
\<close>

definition falsy :: "string option \<Rightarrow> bool" where
  "falsy v = (case v of None \<Rightarrow> True | Some s \<Rightarrow> s = [])"

definition or_else :: "string \<Rightarrow> string \<Rightarrow> string" where
  "or_else a b = (if a = [] then b else a)"

definition endsWith :: "string \<Rightarrow> string \<Rightarrow> bool" where
  "endsWith s suf = (length suf \<le> length s \<and> drop (length s - length suf) s = suf)"

definition startsWith :: "string \<Rightarrow> string \<Rightarrow> bool" where
  "startsWith s pre = (take (length pre) s = pre)"

definition digit_char :: "nat \<Rightarrow> char" where
  "digit_char n = ''0123456789'' ! n"

definition is_digit :: "char \<Rightarrow> bool" where
  "is_digit c = (48 \<le> (of_char c :: nat) \<and> (of_char c :: nat) \<le> 57)"

text \<open>The decimal digits of a number in a field of fixed width (zero padded).\<close>

fun fixed_digits :: "nat \<Rightarrow> nat \<Rightarrow> string" where
  "fixed_digits 0 n = []"
| "fixed_digits (Suc w) n = fixed_digits w (n div 10) @ [digit_char (n mod 10)]"

text \<open>
  \<open>String(n)\<close> for a non-negative integer, as the template literal
  \<open>`pre-open-data-${Date.now()}.csv`\<close> prints it.
\<close>

function decimal :: "nat \<Rightarrow> string" where
  "decimal n = (if n < 10 then [digit_char n] else decimal (n div 10) @ [digit_char (n mod 10)])"
  by pat_completeness auto
termination
  by (relation "measure (\<lambda>n. n)") auto

declare decimal.simps [simp del]

text \<open>
  The UTC fields of a \<open>Date\<close>. \<open>toISOString\<close> prints
  \<open>YYYY-MM-DDTHH:mm:ss.sssZ\<close>, and years beyond 9999 in the expanded form
  \<open>+YYYYYY\<close>; \<open>.split('T')[0]\<close> keeps what stands before the first \<open>T\<close>.
\<close>

record js_date =
  utc_year :: nat
  utc_month :: nat
  utc_day :: nat
  utc_hours :: nat
  utc_minutes :: nat
  utc_seconds :: nat
  utc_millis :: nat

definition valid_date :: "js_date \<Rightarrow> bool" where
  "valid_date d = (utc_year d \<le> 275760 \<and> 1 \<le> utc_month d \<and> utc_month d \<le> 12 \<and>
     1 \<le> utc_day d \<and> utc_day d \<le> 31 \<and> utc_hours d < 24 \<and> utc_minutes d < 60 \<and>
     utc_seconds d < 60 \<and> utc_millis d < 1000)"

definition same_day :: "js_date \<Rightarrow> js_date \<Rightarrow> bool" where
  "same_day d d' = (utc_year d = utc_year d' \<and> utc_month d = utc_month d' \<and>
     utc_day d = utc_day d')"

definition iso_year :: "nat \<Rightarrow> string" where
  "iso_year y = (if y \<le> 9999 then fixed_digits 4 y else CHR ''+'' # fixed_digits 6 y)"

definition iso_date :: "js_date \<Rightarrow> string" where
  "iso_date d = iso_year (utc_year d) @ ''-'' @ fixed_digits 2 (utc_month d) @ ''-'' @
     fixed_digits 2 (utc_day d)"

definition toISOString :: "js_date \<Rightarrow> string" where
  "toISOString d = iso_date d @ ''T'' @ fixed_digits 2 (utc_hours d) @ '':'' @
     fixed_digits 2 (utc_minutes d) @ '':'' @ fixed_digits 2 (utc_seconds d) @ ''.'' @
     fixed_digits 3 (utc_millis d) @ ''Z''"

definition split_T_first :: "string \<Rightarrow> string" where
  "split_T_first s = takeWhile (\<lambda>c. c \<noteq> CHR ''T'') s"

text \<open>
  A \<open>Number\<close>: a finite value, an infinity or \<open>NaN\<close>. Finite values are taken as the
  reals they denote and the operations on them are exact: the rounding of doubles and the
  sign of zero are not modelled. The special values follow IEEE 754.
\<close>

datatype js_number = Finite real | PosInfinity | NegInfinity | NaN

definition truthy :: "js_number \<Rightarrow> bool" where
  "truthy n = (case n of Finite x \<Rightarrow> x \<noteq> 0 | NaN \<Rightarrow> False | _ \<Rightarrow> True)"

definition num_neg :: "js_number \<Rightarrow> js_number" where
  "num_neg n = (case n of Finite x \<Rightarrow> Finite (- x) | PosInfinity \<Rightarrow> NegInfinity
     | NegInfinity \<Rightarrow> PosInfinity | NaN \<Rightarrow> NaN)"

fun num_add :: "js_number \<Rightarrow> js_number \<Rightarrow> js_number" where
  "num_add NaN b = NaN"
| "num_add a NaN = NaN"
| "num_add (Finite x) (Finite y) = Finite (x + y)"
| "num_add PosInfinity NegInfinity = NaN"
| "num_add NegInfinity PosInfinity = NaN"
| "num_add PosInfinity b = PosInfinity"
| "num_add NegInfinity b = NegInfinity"
| "num_add (Finite x) b = b"

definition num_sub :: "js_number \<Rightarrow> js_number \<Rightarrow> js_number" where
  "num_sub a b = num_add a (num_neg b)"

text \<open>The sign of a number that is not \<open>NaN\<close> or zero, as a factor of an infinity.\<close>

definition positive :: "js_number \<Rightarrow> bool" where
  "positive n = (case n of Finite x \<Rightarrow> 0 < x | PosInfinity \<Rightarrow> True | _ \<Rightarrow> False)"

definition infinity :: "bool \<Rightarrow> js_number" where
  "infinity pos = (if pos then PosInfinity else NegInfinity)"

fun num_mul :: "js_number \<Rightarrow> js_number \<Rightarrow> js_number" where
  "num_mul NaN b = NaN"
| "num_mul a NaN = NaN"
| "num_mul (Finite x) (Finite y) = Finite (x * y)"
| "num_mul (Finite x) b = (if x = 0 then NaN else infinity (positive (Finite x) = positive b))"
| "num_mul a (Finite y) = (if y = 0 then NaN else infinity (positive a = positive (Finite y)))"
| "num_mul a b = infinity (positive a = positive b)"

fun num_div :: "js_number \<Rightarrow> js_number \<Rightarrow> js_number" where
  "num_div NaN b = NaN"
| "num_div a NaN = NaN"
| "num_div (Finite x) (Finite y) =
     (if y \<noteq> 0 then Finite (x / y) else if x = 0 then NaN else infinity (0 < x))"
| "num_div (Finite x) b = Finite 0"
| "num_div a (Finite y) = infinity (positive a = (0 \<le> y))"
| "num_div a b = NaN"

definition Math_ceil :: "js_number \<Rightarrow> js_number" where
  "Math_ceil n = (case n of Finite x \<Rightarrow> Finite (of_int \<lceil>x\<rceil>) | _ \<Rightarrow> n)"

fun num_le :: "js_number \<Rightarrow> js_number \<Rightarrow> bool" where
  "num_le NaN b = False"
| "num_le a NaN = False"
| "num_le (Finite x) (Finite y) = (x \<le> y)"
| "num_le NegInfinity b = True"
| "num_le a PosInfinity = True"
| "num_le a b = False"

text \<open>A whole number, as the query \<open>?page=2&limit=10\<close> gives them.\<close>

definition whole :: "int \<Rightarrow> js_number" where
  "whole i = Finite (of_int i)"

section \<open>The scraper: script.ts\<close>

subsection \<open>Calls on the outside world, console lines and traces\<close>

text \<open>
  Every call of \<open>script.ts\<close> that leaves the process is an \<open>action\<close>; an action
  either returns or throws, as the environment decides. A run is observed through its
  trace: the actions it attempted and the console lines it printed, in order.
\<close>

datatype action =
    EnsureDirs
  | Launch
  | NewContext
  | NewPage
  | Goto
  | WaitForTimeout nat
  | Screenshot string
  | Title
  | WaitForSelector
  | ClickDropdown
  | SelectOption
  | IsVisible
  | WaitForEventDownload
  | ClickDownload
  | AwaitDownload
  | SaveAs string
  | ReadFileSync string
  | Send string string
  | PageUrl
  | BrowserClose

datatype log_line =
    LogSkippingUpload
  | LogUploading string
  | LogUploaded string
  | LogUploadFailed
  | LogLaunching
  | LogNavigating
  | LogWaitingForLoad
  | LogTakingInitialScreenshot
  | LogPageTitle
  | LogLookingForDropdown
  | LogFoundDropdown
  | LogSelectedAll
  | LogLookingForCsv
  | LogFoundCsvButton
  | LogDownloadStarted string
  | LogDownloadedTo string
  | LogButtonNotFound
  | LogCouldNotFind
  | LogExtractionCompleted
  | LogErrorDuringAutomation
  | LogCurrentUrl
  | LogCouldNotTakeErrorScreenshot
  | LogBrowserClosed

datatype event =
    Call action
  | Enter_uploadToR2 string string
  | Log log_line

record env =
  throws :: "action \<Rightarrow> bool"
  isVisible_result :: bool
  suggestedFilename :: string
  Date_now_path :: nat
  Date_now_name :: nat
  new_Date_key :: js_date
  R2_ACCESS_KEY_ID :: "string option"
  R2_SECRET_ACCESS_KEY :: "string option"

text \<open>
  A computation yields its result, or \<open>None\<close> when it threw, and the events it
  produced. \<open>try_catch\<close> and \<open>try_finally\<close> are the \<open>try\<close> statements of
  JavaScript: a \<open>finally\<close> block that completes leaves the outcome of the \<open>try\<close>
  block as it was, one that throws replaces it.
\<close>

type_synonym 'a prog = "'a option \<times> event list"

definition ret :: "'a \<Rightarrow> 'a prog" where
  "ret x = (Some x, [])"

definition bind :: "'a prog \<Rightarrow> ('a \<Rightarrow> 'b prog) \<Rightarrow> 'b prog" where
  "bind m f = (case m of (None, evs) \<Rightarrow> (None, evs)
     | (Some x, evs) \<Rightarrow> (case f x of (r, evs') \<Rightarrow> (r, evs @ evs')))"

definition perform :: "env \<Rightarrow> action \<Rightarrow> unit prog" where
  "perform e a = (if throws e a then None else Some (), [Call a])"

definition console :: "log_line \<Rightarrow> unit prog" where
  "console l = (Some (), [Log l])"

definition try_catch :: "'a prog \<Rightarrow> 'a prog \<Rightarrow> 'a prog" where
  "try_catch m h = (case m of (None, evs) \<Rightarrow> (case h of (r, evs') \<Rightarrow> (r, evs @ evs'))
     | (Some x, evs) \<Rightarrow> (Some x, evs))"

definition try_finally :: "'a prog \<Rightarrow> unit prog \<Rightarrow> 'a prog" where
  "try_finally m f = (case m of (r, evs) \<Rightarrow>
     (case f of (None, evs') \<Rightarrow> (None, evs @ evs') | (Some u, evs') \<Rightarrow> (r, evs @ evs')))"

fun seq :: "unit prog list \<Rightarrow> unit prog" where
  "seq [] = ret ()"
| "seq (p # ps) = bind p (\<lambda>u. seq ps)"

subsection \<open>uploadToR2\<close>

definition storage_key :: "js_date \<Rightarrow> string \<Rightarrow> string" where
  "storage_key now fileName =
     ''nse-preopen/'' @ split_T_first (toISOString now) @ ''/'' @ fileName"

definition content_type :: "string \<Rightarrow> string" where
  "content_type fileName =
     (if endsWith fileName ''.csv'' then ''text/csv'' else ''application/octet-stream'')"

definition uploadToR2 :: "env \<Rightarrow> string \<Rightarrow> string \<Rightarrow> bool prog" where
  "uploadToR2 e filePath fileName =
     bind (Some (), [Enter_uploadToR2 filePath fileName]) (\<lambda>u.
     try_catch
       (if falsy (R2_ACCESS_KEY_ID e) \<or> falsy (R2_SECRET_ACCESS_KEY e)
        then bind (console LogSkippingUpload) (\<lambda>u. ret False)
        else bind (seq [console (LogUploading fileName),
                        perform e (ReadFileSync filePath),
                        perform e (Send (storage_key (new_Date_key e) fileName)
                                        (content_type fileName)),
                        console (LogUploaded (storage_key (new_Date_key e) fileName))])
                  (\<lambda>u. ret True))
       (bind (console LogUploadFailed) (\<lambda>u. ret False)))"

subsection \<open>run\<close>

definition SCREENSHOT_PATH :: string where
  "SCREENSHOT_PATH = ''./screenshots/pre-open-market.png''"

definition AFTER_DOWNLOAD_PATH :: string where
  "AFTER_DOWNLOAD_PATH = ''./screenshots/after-download.png''"

definition ERROR_STATE_PATH :: string where
  "ERROR_STATE_PATH = ''./screenshots/error-state.png''"

definition ERROR_PAGE_PATH :: string where
  "ERROR_PAGE_PATH = ''./screenshots/error-page.png''"

definition DOWNLOADS_PATH :: string where
  "DOWNLOADS_PATH = ''./downloads''"

definition synthesized_name :: "nat \<Rightarrow> string" where
  "synthesized_name t = ''pre-open-data-'' @ decimal t @ ''.csv''"

text \<open>
  \<open>path.join(DOWNLOADS_PATH, name)\<close>; the normalisation Node applies to the result
  (the leading \<open>./\<close>) names the same file and is left out.
\<close>

definition path_join :: "string \<Rightarrow> string \<Rightarrow> string" where
  "path_join dir name = dir @ ''/'' @ name"

text \<open>
  The file name is computed twice, at line 143 for the local path and at line 149 for
  the upload, each time reading the clock when the download suggests no name.
\<close>

definition saved_name :: "env \<Rightarrow> string" where
  "saved_name e = or_else (suggestedFilename e) (synthesized_name (Date_now_path e))"

definition downloadPath :: "env \<Rightarrow> string" where
  "downloadPath e = path_join DOWNLOADS_PATH (saved_name e)"

definition upload_fileName :: "env \<Rightarrow> string" where
  "upload_fileName e = or_else (suggestedFilename e) (synthesized_name (Date_now_name e))"

text \<open>
  The visible branch, lines 130 to 153. \<open>page.waitForEvent('download')\<close> arms the
  listener and returns a promise at once; a failure of the wait surfaces only where the
  promise is awaited, after the click. The value of \<open>uploadToR2\<close> is dropped.
\<close>

definition download_block :: "env \<Rightarrow> unit prog" where
  "download_block e = seq
     [console LogFoundCsvButton,
      (Some (), [Call WaitForEventDownload]),
      perform e ClickDownload,
      perform e AwaitDownload,
      console (LogDownloadStarted (suggestedFilename e)),
      perform e (SaveAs (downloadPath e)),
      console (LogDownloadedTo (downloadPath e)),
      bind (uploadToR2 e (downloadPath e) (upload_fileName e)) (\<lambda>b. ret ()),
      perform e (Screenshot AFTER_DOWNLOAD_PATH)]"

definition selection_block :: "env \<Rightarrow> unit prog" where
  "selection_block e = seq
     [perform e WaitForSelector,
      console LogFoundDropdown,
      perform e ClickDropdown,
      perform e (WaitForTimeout 2000),
      perform e SelectOption,
      console LogSelectedAll,
      perform e (WaitForTimeout 3000),
      console LogLookingForCsv,
      bind (bind (perform e IsVisible) (\<lambda>u. ret (isVisible_result e)))
        (\<lambda>visible. if visible then download_block e else console LogButtonNotFound)]"

definition selection_catch :: "env \<Rightarrow> unit prog" where
  "selection_catch e = seq [console LogCouldNotFind, perform e (Screenshot ERROR_STATE_PATH)]"

definition main_block :: "env \<Rightarrow> unit prog" where
  "main_block e = seq
     [console LogNavigating,
      perform e Goto,
      console LogWaitingForLoad,
      perform e (WaitForTimeout 8000),
      console LogTakingInitialScreenshot,
      perform e (Screenshot SCREENSHOT_PATH),
      perform e Title,
      console LogPageTitle,
      console LogLookingForDropdown,
      try_catch (selection_block e) (selection_catch e),
      console LogExtractionCompleted]"

definition main_catch :: "env \<Rightarrow> unit prog" where
  "main_catch e = seq
     [console LogErrorDuringAutomation,
      try_catch
        (seq [perform e PageUrl, console LogCurrentUrl, perform e (Screenshot ERROR_PAGE_PATH)])
        (console LogCouldNotTakeErrorScreenshot)]"

definition main_finally :: "env \<Rightarrow> unit prog" where
  "main_finally e = seq [perform e BrowserClose, console LogBrowserClosed]"

text \<open>
  Lines 64 to 86, before the \<open>try\<close> statement: the two directories are made sure of
  (one action), the browser is launched, the context and the page are created.
\<close>

definition bootstrap :: "env \<Rightarrow> unit prog" where
  "bootstrap e = seq
     [perform e EnsureDirs, console LogLaunching, perform e Launch, perform e NewContext,
      perform e NewPage]"

definition run :: "env \<Rightarrow> unit prog" where
  "run e = bind (bootstrap e) (\<lambda>u.
     try_finally (try_catch (main_block e) (main_catch e)) (main_finally e))"

definition trace :: "env \<Rightarrow> event list" where
  "trace e = snd (run e)"

definition rejected :: "env \<Rightarrow> bool" where
  "rejected e = (fst (run e) = None)"

subsection \<open>Classification of a run\<close>

text \<open>
  \<open>run\<close> returns nothing; what a run came to is read off the handler that ended
  it, through the console line that handler prints. The outer \<open>catch\<close> (line 168,
  "Error during automation") is the fatal path. A run whose outer \<open>try\<close> block reached
  its last line ("extraction completed") is a partial failure when the inner \<open>catch\<close>
  ran, the download button was not visible or the upload failed; it is skipped when the
  upload was bypassed, and completed otherwise. A run that never entered the \<open>try\<close>
  statement has no classification.
\<close>

datatype run_outcome = Completed | Skipped | PartialFailure | FatalFailure

definition classify :: "event list \<Rightarrow> run_outcome option" where
  "classify tr =
     (if Log LogErrorDuringAutomation \<in> set tr then Some FatalFailure
      else if Log LogExtractionCompleted \<in> set tr then
        (if Log LogCouldNotFind \<in> set tr \<or> Log LogButtonNotFound \<in> set tr \<or>
            Log LogUploadFailed \<in> set tr then Some PartialFailure
         else if Log LogSkippingUpload \<in> set tr then Some Skipped
         else Some Completed)
      else None)"

definition session_opened :: "env \<Rightarrow> bool" where
  "session_opened e = (\<not> throws e EnsureDirs \<and> \<not> throws e Launch \<and> \<not> throws e NewContext \<and>
     \<not> throws e NewPage)"

definition is_screenshot :: "event \<Rightarrow> bool" where
  "is_screenshot ev = (case ev of Call (Screenshot p) \<Rightarrow> True | _ \<Rightarrow> False)"

definition is_archiver_event :: "event \<Rightarrow> bool" where
  "is_archiver_event ev = (case ev of Enter_uploadToR2 p f \<Rightarrow> True
     | Call (ReadFileSync p) \<Rightarrow> True | Call (Send k c) \<Rightarrow> True | _ \<Rightarrow> False)"

definition is_capturer_event :: "event \<Rightarrow> bool" where
  "is_capturer_event ev = (case ev of Call IsVisible \<Rightarrow> True
     | Call WaitForEventDownload \<Rightarrow> True | Call ClickDownload \<Rightarrow> True
     | Call AwaitDownload \<Rightarrow> True | Call (SaveAs p) \<Rightarrow> True | _ \<Rightarrow> False)"

definition armed_before_click :: "event list \<Rightarrow> bool" where
  "armed_before_click tr = (\<forall>i < length tr. tr ! i = Call ClickDownload \<longrightarrow>
     (\<exists>j < i. tr ! j = Call WaitForEventDownload))"

text \<open>The environment in which a given call throws, or returns, all else equal.\<close>

definition with_throw :: "env \<Rightarrow> action \<Rightarrow> bool \<Rightarrow> env" where
  "with_throw e a b = e\<lparr>throws := (throws e)(a := b)\<rparr>"

section \<open>The read-API: rate-limiter.ts and index.ts\<close>

subsection \<open>RateLimiter\<close>

definition WINDOW_MS :: int where
  "WINDOW_MS = 60000"

definition MAX_REQUESTS :: nat where
  "MAX_REQUESTS = 30"

text \<open>\<open>fetch\<close>: the state is the array \<open>requests\<close>, \<open>now\<close> is \<open>Date.now()\<close>.\<close>

definition RateLimiter_fetch :: "int \<Rightarrow> int list \<Rightarrow> bool \<times> int list" where
  "RateLimiter_fetch now requests =
     (let requests' = filter (\<lambda>timestamp. now - timestamp < WINDOW_MS) requests
      in if length requests' \<ge> MAX_REQUESTS then (False, requests')
         else (True, requests' @ [now]))"

subsection \<open>The rate limiting middleware\<close>

record list_dates_body =
  dates :: "string list"
  totalCount :: nat
  page :: js_number
  limit :: js_number
  totalPages :: js_number

datatype api_response =
    JsonError nat string
  | JsonDates nat list_dates_body

text \<open>
  One \<open>RateLimiter\<close> object per name: \<open>idFromName(ip)\<close> is a function of the
  caller's address, taken from the header \<open>CF-Connecting-IP\<close> or \<open>"unknown"\<close>.
  The middleware answers itself (\<open>Some\<close>) or hands over to the route (\<open>None\<close>).
\<close>

type_synonym limiters = "string \<Rightarrow> int list"

definition caller :: "string option \<Rightarrow> string" where
  "caller header = (case header of None \<Rightarrow> ''unknown''
     | Some ip \<Rightarrow> if ip = [] then ''unknown'' else ip)"

definition rate_limit :: "string option \<Rightarrow> int \<Rightarrow> limiters \<Rightarrow> api_response option \<times> limiters" where
  "rate_limit header now ls =
     (let ip = caller header;
          (allowed, requests') = RateLimiter_fetch now (ls ip)
      in (if \<not> allowed then Some (JsonError 429 ''Rate limit exceeded'') else None,
          ls(ip := requests')))"

text \<open>
  The API over a sequence of requests, each with its header and the clock reading when
  it is served: the limiter objects and the requests let through so far.
\<close>

definition serve_step :: "limiters \<times> (string \<times> int) list \<Rightarrow> string option \<times> int \<Rightarrow>
    limiters \<times> (string \<times> int) list" where
  "serve_step st req =
     (case rate_limit (fst req) (snd req) (fst st) of
        (None, ls') \<Rightarrow> (ls', snd st @ [(caller (fst req), snd req)])
      | (Some r, ls') \<Rightarrow> (ls', snd st))"

definition serve :: "(string option \<times> int) list \<Rightarrow> limiters \<times> (string \<times> int) list" where
  "serve reqs = foldl serve_step (\<lambda>ip. [], []) reqs"

definition passed_times :: "string \<Rightarrow> (string \<times> int) list \<Rightarrow> int list" where
  "passed_times ip passed = map snd (filter (\<lambda>r. fst r = ip) passed)"

definition allowed_in :: "string \<Rightarrow> int \<Rightarrow> int \<Rightarrow> (string \<times> int) list \<Rightarrow> nat" where
  "allowed_in ip lo hi passed = length (filter (\<lambda>r. fst r = ip \<and> lo \<le> snd r \<and> snd r < hi) passed)"

subsection \<open>The list-dates route\<close>

text \<open>
  \<open>key.match(/(\d{4}-\d{2}-\d{2})\.csv$/)\<close>: the pattern has fixed length 14 and is
  anchored at the end, so it can only match the last 14 characters.
\<close>

definition date_shaped :: "string \<Rightarrow> bool" where
  "date_shaped s = (case s of [y1, y2, y3, y4, h1, m1, m2, h2, d1, d2] \<Rightarrow>
       is_digit y1 \<and> is_digit y2 \<and> is_digit y3 \<and> is_digit y4 \<and> h1 = CHR ''-'' \<and>
       is_digit m1 \<and> is_digit m2 \<and> h2 = CHR ''-'' \<and> is_digit d1 \<and> is_digit d2
     | _ \<Rightarrow> False)"

definition match_date :: "string \<Rightarrow> string option" where
  "match_date key =
     (if length key < 14 then None
      else let tail = drop (length key - 14) key
           in if date_shaped (take 10 tail) \<and> drop 10 tail = ''.csv''
              then Some (take 10 tail) else None)"

text \<open>A \<open>Set\<close> keeps its elements in insertion order; \<open>add\<close> ignores a known one.\<close>

definition Set_add :: "string list \<Rightarrow> string \<Rightarrow> string list" where
  "Set_add s d = (if d \<in> set s then s else s @ [d])"

definition collect_dates :: "string list \<Rightarrow> string list" where
  "collect_dates keys =
     foldl (\<lambda>s key. case match_date key of None \<Rightarrow> s | Some d \<Rightarrow> Set_add s d) [] keys"

text \<open>
  The query parameters are \<open>z.string().transform(Number).optional()\<close>: \<open>undefined\<close>
  when absent, any \<open>Number\<close> otherwise, whole or not. \<open>q || d\<close> is the default for
  \<open>undefined\<close>, zero and \<open>NaN\<close>.
\<close>

definition or_default :: "js_number option \<Rightarrow> js_number \<Rightarrow> js_number" where
  "or_default q d = (case q of None \<Rightarrow> d | Some v \<Rightarrow> if truthy v then v else d)"

text \<open>
  \<open>Array.prototype.slice(start, end)\<close>: each argument is made an integer or an infinity
  (\<open>NaN\<close> becomes 0, a fraction is cut off towards zero), a negative one counts from the
  end, and both are clamped to the array.
\<close>

definition Math_trunc :: "real \<Rightarrow> int" where
  "Math_trunc x = (if x < 0 then \<lceil>x\<rceil> else \<lfloor>x\<rfloor>)"

definition rel_index :: "js_number \<Rightarrow> nat \<Rightarrow> nat" where
  "rel_index n len = (case n of NaN \<Rightarrow> 0 | NegInfinity \<Rightarrow> 0 | PosInfinity \<Rightarrow> len
     | Finite x \<Rightarrow> (let i = Math_trunc x
                    in if i < 0 then nat (max (int len + i) 0) else min (nat i) len))"

definition js_slice :: "'a list \<Rightarrow> js_number \<Rightarrow> js_number \<Rightarrow> 'a list" where
  "js_slice xs start end' =
     (let k = rel_index start (length xs); final = rel_index end' (length xs)
      in take (final - k) (drop k xs))"

text \<open>
  The store, as the route sees it: \<open>list({prefix})\<close> returns the keys that start
  with the prefix, at most a page of them, or throws.
\<close>

record r2_bucket =
  object_keys :: "string list"
  list_page_size :: nat
  list_throws :: bool

definition R2_list :: "r2_bucket \<Rightarrow> string \<Rightarrow> string list option" where
  "R2_list b prefix =
     (if list_throws b then None
      else Some (take (list_page_size b) (filter (\<lambda>k. startsWith k prefix) (object_keys b))))"

definition listDates :: "r2_bucket \<Rightarrow> js_number option \<Rightarrow> js_number option \<Rightarrow> api_response" where
  "listDates b query_page query_limit =
     (let page = or_default query_page (whole 1);
          limit = or_default query_limit (whole 10)
      in case R2_list b ''pre-open-market/'' of
           None \<Rightarrow> JsonError 500 ''Failed to list dates''
         | Some objects \<Rightarrow>
             let dates = rev (sort (collect_dates objects));
                 totalCount = length dates;
                 totalPages = Math_ceil (num_div (Finite (real totalCount)) limit);
                 start = num_mul (num_sub page (whole 1)) limit;
                 end' = num_add start limit;
                 paginatedDates = js_slice dates start end'
             in JsonDates 200 \<lparr>dates = paginatedDates, totalCount = totalCount, page = page,
                  limit = limit, totalPages = totalPages\<rparr>)"

section \<open>Concrete environments\<close>

definition date_20240924 :: js_date where
  "date_20240924 = \<lparr>utc_year = 2024, utc_month = 9, utc_day = 24, utc_hours = 3,
     utc_minutes = 40, utc_seconds = 12, utc_millis = 345\<rparr>"

definition date_20240925 :: js_date where
  "date_20240925 = \<lparr>utc_year = 2024, utc_month = 9, utc_day = 25, utc_hours = 3,
     utc_minutes = 41, utc_seconds = 7, utc_millis = 0\<rparr>"

text \<open>
  Every call returns, the button is visible, the download suggests a name and both
  credentials are configured.
\<close>

definition env_ok :: env where
  "env_ok = \<lparr>throws = (\<lambda>a. False), isVisible_result = True,
     suggestedFilename = ''preopen_20240924.csv'',
     Date_now_path = 1727149212000, Date_now_name = 1727149213500,
     new_Date_key = date_20240924,
     R2_ACCESS_KEY_ID = Some ''key-id'', R2_SECRET_ACCESS_KEY = Some ''secret''\<rparr>"

text \<open>One credential is missing.\<close>

definition env_one_credential :: env where
  "env_one_credential = env_ok\<lparr>R2_SECRET_ACCESS_KEY := None\<rparr>"

text \<open>The download suggests no name; the clock moves on while the file is saved.\<close>

definition env_unnamed :: env where
  "env_unnamed = env_ok\<lparr>suggestedFilename := []\<rparr>"

text \<open>The dropdown never appears; the target cannot be reached.\<close>

definition env_no_control :: env where
  "env_no_control = with_throw env_ok WaitForSelector True"

definition env_unreachable :: env where
  "env_unreachable = with_throw env_ok Goto True"

definition env_no_control_no_snapshot :: env where
  "env_no_control_no_snapshot = with_throw env_no_control (Screenshot ERROR_STATE_PATH) True"

text \<open>Thirty requests of one caller within thirty milliseconds.\<close>

definition burst :: "(string option \<times> int) list" where
  "burst = map (\<lambda>t. (Some ''203.0.113.7'', t)) [1000..1029]"

text \<open>A store with the data of two days and a file of another kind.\<close>

definition bucket_two_days :: r2_bucket where
  "bucket_two_days = \<lparr>object_keys = [''pre-open-market/2024-09-24.csv'',
       ''pre-open-market/2024-09-25.csv'', ''pre-open-market/readme.txt''],
     list_page_size = 1000, list_throws = False\<rparr>"

definition bucket_three_days :: r2_bucket where
  "bucket_three_days = \<lparr>object_keys = [''pre-open-market/2024-09-24.csv'',
       ''pre-open-market/2024-09-25.csv'', ''pre-open-market/2024-09-26.csv''],
     list_page_size = 1000, list_throws = False\<rparr>"

definition body_defaults :: list_dates_body where
  "body_defaults = \<lparr>dates = [''2024-09-25'', ''2024-09-24''], totalCount = 2, page = whole 1,
     limit = whole 10, totalPages = whole 1\<rparr>"

definition body_negative_limit :: list_dates_body where
  "body_negative_limit = \<lparr>dates = [''2024-09-25''], totalCount = 2, page = whole 1,
     limit = whole (- 1), totalPages = whole (- 2)\<rparr>"

definition body_fractional_limit :: list_dates_body where
  "body_fractional_limit = \<lparr>dates = [''2024-09-25'', ''2024-09-24''], totalCount = 3,
     page = whole 2, limit = Finite (3 / 2), totalPages = whole 2\<rparr>"

text \<open>The page cannot be created: \<open>context.newPage()\<close> throws after the launch.\<close>

definition env_no_page :: env where
  "env_no_page = with_throw env_ok NewPage True"

section \<open>Digits, dates and storage keys\<close>

lemma digit_char_codes: "list_all (\<lambda>k. (of_char (digit_char k) :: nat) = 48 + k) [0..<10]"
  unfolding digit_char_def by code_simp

lemma of_char_digit: "n < 10 \<Longrightarrow> (of_char (digit_char n) :: nat) = 48 + n"
  using digit_char_codes by (simp add: list_all_iff)

lemma digit_char_inj: "a < 10 \<Longrightarrow> b < 10 \<Longrightarrow> digit_char a = digit_char b \<Longrightarrow> a = b"
proof -
  assume a: "a < 10" and b: "b < 10" and eq: "digit_char a = digit_char b"
  from eq have "(of_char (digit_char a) :: nat) = of_char (digit_char b)"
    by (rule arg_cong)
  then have "48 + a = 48 + b"
    by (simp only: of_char_digit [OF a] of_char_digit [OF b])
  then show ?thesis by simp
qed

lemma is_digit_digit_char: "n < 10 \<Longrightarrow> is_digit (digit_char n)"
  by (simp add: is_digit_def of_char_digit)

lemma length_fixed_digits: "length (fixed_digits w n) = w"
  by (induction w arbitrary: n) auto

lemma fixed_digits_are_digits: "c \<in> set (fixed_digits w n) \<Longrightarrow> is_digit c"
  by (induction w arbitrary: n) (auto simp: is_digit_digit_char)

lemma fixed_digits_inj:
  "n < 10 ^ w \<Longrightarrow> m < 10 ^ w \<Longrightarrow> fixed_digits w n = fixed_digits w m \<Longrightarrow> n = m"
proof (induction w arbitrary: n m)
  case 0
  then show ?case by simp
next
  case (Suc w)
  from Suc.prems(3) have eq: "fixed_digits w (n div 10) = fixed_digits w (m div 10)"
    and d: "digit_char (n mod 10) = digit_char (m mod 10)"
    by (simp_all add: length_fixed_digits)
  have "n div 10 < 10 ^ w" "m div 10 < 10 ^ w"
    using Suc.prems(1,2) by (simp_all add: less_mult_imp_div_less mult.commute)
  with eq Suc.IH have q: "n div 10 = m div 10" by blast
  have r: "n mod 10 = m mod 10"
    using d by (intro digit_char_inj) simp_all
  show ?case using q r by (metis div_mult_mod_eq)
qed

lemma fixed_digits_append_inj:
  assumes "n < 10 ^ w" "m < 10 ^ w" "fixed_digits w n @ r = fixed_digits w m @ r'"
  shows "n = m \<and> r = r'"
proof -
  from assms(3) have "fixed_digits w n = fixed_digits w m \<and> r = r'"
    by (simp add: append_eq_append_conv length_fixed_digits)
  with assms(1,2) show ?thesis by (blast dest: fixed_digits_inj)
qed

lemma fixed_digits_2: "fixed_digits 2 n = [digit_char (n div 10 mod 10), digit_char (n mod 10)]"
proof -
  have "fixed_digits (Suc (Suc 0)) n = [digit_char (n div 10 mod 10), digit_char (n mod 10)]"
    by simp
  then show ?thesis by (simp only: numeral_2_eq_2)
qed

lemma fixed_digits_4: "fixed_digits 4 n = [digit_char (n div 1000 mod 10),
   digit_char (n div 100 mod 10), digit_char (n div 10 mod 10), digit_char (n mod 10)]"
proof -
  have "fixed_digits (Suc (Suc (Suc (Suc 0)))) n = [digit_char (n div 1000 mod 10),
   digit_char (n div 100 mod 10), digit_char (n div 10 mod 10), digit_char (n mod 10)]"
    by (simp add: div_mult2_eq [symmetric])
  moreover have "(4::nat) = Suc (Suc (Suc (Suc 0)))" by simp
  ultimately show ?thesis by (simp only:)
qed

lemma not_T_digit: "is_digit c \<Longrightarrow> c \<noteq> CHR ''T''"
  by (auto simp: is_digit_def)

lemma plus_not_digit: "\<not> is_digit CHR ''+''"
  by (simp add: is_digit_def)

lemma hd_fixed_digits: "0 < w \<Longrightarrow> is_digit (hd (fixed_digits w n @ r))"
proof -
  assume "0 < w"
  then have ne: "fixed_digits w n \<noteq> []"
    using length_fixed_digits [of w n] by auto
  then have "hd (fixed_digits w n @ r) \<in> set (fixed_digits w n)" by simp
  then show ?thesis by (rule fixed_digits_are_digits)
qed

lemma iso_date_no_T: "c \<in> set (iso_date d) \<Longrightarrow> c \<noteq> CHR ''T''"
  by (auto simp: iso_date_def iso_year_def dest!: fixed_digits_are_digits not_T_digit
      split: if_splits)

text \<open>The date part of \<open>toISOString\<close> holds no \<open>T\<close>, so the split returns it whole.\<close>

lemma split_toISOString: "split_T_first (toISOString d) = iso_date d"
proof -
  have "takeWhile (\<lambda>c. c \<noteq> CHR ''T'') (iso_date d @ CHR ''T'' # rest) = iso_date d" for rest
    using iso_date_no_T [of _ d] by (simp add: takeWhile_tail takeWhile_eq_all_conv)
  then show ?thesis by (simp add: split_T_first_def toISOString_def)
qed

lemma storage_key_eq: "storage_key d f = ''nse-preopen/'' @ iso_date d @ ''/'' @ f"
  by (simp add: storage_key_def split_toISOString)

lemma iso_year_append_inj:
  assumes "y \<le> 275760" "y' \<le> 275760" "iso_year y @ r = iso_year y' @ r'"
  shows "y = y' \<and> r = r'"
proof (cases "y \<le> 9999")
  case True
  show ?thesis
  proof (cases "y' \<le> 9999")
    case True
    with \<open>y \<le> 9999\<close> assms(3) show ?thesis
      by (intro fixed_digits_append_inj [of y 4 y']) (simp_all add: iso_year_def)
  next
    case False
    from assms(3) have "hd (iso_year y @ r) = hd (iso_year y' @ r')"
      by (rule arg_cong)
    with \<open>y \<le> 9999\<close> False have "hd (fixed_digits 4 y @ r) = CHR ''+''"
      by (simp add: iso_year_def)
    with hd_fixed_digits [of 4 y r] plus_not_digit show ?thesis by simp
  qed
next
  case False
  show ?thesis
  proof (cases "y' \<le> 9999")
    case True
    from assms(3) have "hd (iso_year y @ r) = hd (iso_year y' @ r')"
      by (rule arg_cong)
    with \<open>\<not> y \<le> 9999\<close> True have "hd (fixed_digits 4 y' @ r') = CHR ''+''"
      by (simp add: iso_year_def)
    with hd_fixed_digits [of 4 y' r'] plus_not_digit show ?thesis by simp
  next
    case False
    with \<open>\<not> y \<le> 9999\<close> assms show ?thesis
      by (intro fixed_digits_append_inj [of y 6 y']) (simp_all add: iso_year_def)
  qed
qed

lemma iso_date_append_inj:
  assumes "valid_date d" "valid_date d'" "iso_date d @ r = iso_date d' @ r'"
  shows "same_day d d'"
proof -
  let ?t = "\<lambda>x s. CHR ''-'' # fixed_digits 2 (utc_month x) @ CHR ''-'' # fixed_digits 2 (utc_day x) @ s"
  from assms(3) have "iso_year (utc_year d) @ ?t d r = iso_year (utc_year d') @ ?t d' r'"
    by (simp add: iso_date_def)
  with assms(1,2) have y: "utc_year d = utc_year d'" and t: "?t d r = ?t d' r'"
    using iso_year_append_inj [of "utc_year d" "utc_year d'" "?t d r" "?t d' r'"]
    by (simp_all add: valid_date_def)
  from t have "fixed_digits 2 (utc_month d) @ (CHR ''-'' # fixed_digits 2 (utc_day d) @ r) =
      fixed_digits 2 (utc_month d') @ (CHR ''-'' # fixed_digits 2 (utc_day d') @ r')"
    by simp
  with assms(1,2) have m: "utc_month d = utc_month d'"
    and u: "fixed_digits 2 (utc_day d) @ r = fixed_digits 2 (utc_day d') @ r'"
    using fixed_digits_append_inj [of "utc_month d" 2 "utc_month d'"
        "CHR ''-'' # fixed_digits 2 (utc_day d) @ r" "CHR ''-'' # fixed_digits 2 (utc_day d') @ r'"]
    by (simp_all add: valid_date_def)
  from u assms(1,2) have "utc_day d = utc_day d'"
    using fixed_digits_append_inj [of "utc_day d" 2 "utc_day d'" r r']
    by (simp add: valid_date_def)
  with y m show ?thesis by (simp add: same_day_def)
qed

lemma storage_key_same_day: "same_day d d' \<Longrightarrow> storage_key d f = storage_key d' f"
  by (simp add: storage_key_eq same_day_def iso_date_def)

lemma storage_key_inj:
  assumes "valid_date d" "valid_date d'" "storage_key d f = storage_key d' f'"
  shows "same_day d d'"
  using assms iso_date_append_inj [of d d' "''/'' @ f" "''/'' @ f'"]
  by (simp add: storage_key_eq)

lemma storage_key_20240924:
  "utc_year d = 2024 \<Longrightarrow> utc_month d = 9 \<Longrightarrow> utc_day d = 24 \<Longrightarrow>
     storage_key d f = ''nse-preopen/2024-09-24/'' @ f"
  by (simp add: storage_key_eq iso_date_def iso_year_def digit_char_def fixed_digits_2
      fixed_digits_4)

subsection \<open>Synthesized file names\<close>

lemma decimal_nonempty: "decimal n \<noteq> []"
  by (subst decimal.simps) simp

lemma decimal_inverse: "foldl (\<lambda>a c. 10 * a + (of_char c - 48)) 0 (decimal n) = n"
proof (induction n rule: decimal.induct)
  case (1 n)
  show ?case
  proof (cases "n < 10")
    case True
    then show ?thesis by (subst decimal.simps) (simp add: of_char_digit)
  next
    case False
    with "1" show ?thesis by (subst decimal.simps) (simp add: of_char_digit)
  qed
qed

lemma decimal_inj: "decimal n = decimal m \<Longrightarrow> n = m"
  by (metis decimal_inverse)

lemma synthesized_name_inj: "synthesized_name t = synthesized_name t' \<Longrightarrow> t = t'"
  by (simp add: synthesized_name_def decimal_inj)

lemma upload_fileName_nonempty: "upload_fileName e \<noteq> []"
  by (simp add: upload_fileName_def or_else_def synthesized_name_def)

lemma names_agree_when_suggested:
  "suggestedFilename e \<noteq> [] \<Longrightarrow> upload_fileName e = saved_name e"
  by (simp add: upload_fileName_def saved_name_def or_else_def)

lemma names_differ_when_clock_moves:
  "suggestedFilename e = [] \<Longrightarrow> Date_now_path e \<noteq> Date_now_name e \<Longrightarrow>
     upload_fileName e \<noteq> saved_name e"
  by (auto simp: upload_fileName_def saved_name_def or_else_def dest: synthesized_name_inj)

section \<open>Computations: results and traces\<close>

lemma fst_bind: "fst (bind m f) = (case fst m of None \<Rightarrow> None | Some x \<Rightarrow> fst (f x))"
  by (simp add: bind_def split: prod.splits option.splits)

lemma snd_bind: "snd (bind m f) = snd m @ (case fst m of None \<Rightarrow> [] | Some x \<Rightarrow> snd (f x))"
  by (simp add: bind_def split: prod.splits option.splits)

lemma fst_try_catch: "fst (try_catch m h) = (case fst m of None \<Rightarrow> fst h | Some x \<Rightarrow> Some x)"
  by (simp add: try_catch_def split: prod.splits option.splits)

lemma snd_try_catch:
  "snd (try_catch m h) = snd m @ (case fst m of None \<Rightarrow> snd h | Some x \<Rightarrow> [])"
  by (simp add: try_catch_def split: prod.splits option.splits)

lemma fst_try_finally:
  "fst (try_finally m f) = (case fst f of None \<Rightarrow> None | Some u \<Rightarrow> fst m)"
  by (simp add: try_finally_def split: prod.splits option.splits)

lemma snd_try_finally: "snd (try_finally m f) = snd m @ snd f"
  by (simp add: try_finally_def split: prod.splits option.splits)

lemma fst_perform: "fst (perform e a) = (if throws e a then None else Some ())"
  by (simp add: perform_def)

lemma snd_perform: "snd (perform e a) = [Call a]"
  by (simp add: perform_def)

lemma fst_console: "fst (console l) = Some ()"
  by (simp add: console_def)

lemma snd_console: "snd (console l) = [Log l]"
  by (simp add: console_def)

lemma fst_ret: "fst (ret x) = Some x"
  by (simp add: ret_def)

lemma snd_ret: "snd (ret x) = []"
  by (simp add: ret_def)

lemma fst_seq_Cons:
  "fst (seq (p # ps)) = (case fst p of None \<Rightarrow> None | Some u \<Rightarrow> fst (seq ps))"
  by (simp add: fst_bind)

lemma snd_seq_Cons:
  "snd (seq (p # ps)) = snd p @ (case fst p of None \<Rightarrow> [] | Some u \<Rightarrow> snd (seq ps))"
  by (simp add: snd_bind)

lemma fst_seq_Nil: "fst (seq []) = Some ()"
  by (simp add: ret_def)

lemma snd_seq_Nil: "snd (seq []) = []"
  by (simp add: ret_def)

lemmas prog_simps = fst_bind snd_bind fst_try_catch snd_try_catch fst_try_finally
  snd_try_finally fst_perform snd_perform fst_console snd_console fst_ret snd_ret
  fst_seq_Cons snd_seq_Cons fst_seq_Nil snd_seq_Nil

lemmas run_defs = run_def trace_def rejected_def bootstrap_def main_block_def main_catch_def
  main_finally_def selection_block_def selection_catch_def download_block_def uploadToR2_def

lemmas path_defs = SCREENSHOT_PATH_def AFTER_DOWNLOAD_PATH_def ERROR_STATE_PATH_def
  ERROR_PAGE_PATH_def

lemma throws_with_throw: "throws (with_throw e a b) x = (if x = a then b else throws e x)"
  by (simp add: with_throw_def)

lemma with_throw_fields:
  "isVisible_result (with_throw e a b) = isVisible_result e"
  "suggestedFilename (with_throw e a b) = suggestedFilename e"
  "Date_now_path (with_throw e a b) = Date_now_path e"
  "Date_now_name (with_throw e a b) = Date_now_name e"
  "new_Date_key (with_throw e a b) = new_Date_key e"
  "R2_ACCESS_KEY_ID (with_throw e a b) = R2_ACCESS_KEY_ID e"
  "R2_SECRET_ACCESS_KEY (with_throw e a b) = R2_SECRET_ACCESS_KEY e"
  "saved_name (with_throw e a b) = saved_name e"
  "upload_fileName (with_throw e a b) = upload_fileName e"
  "downloadPath (with_throw e a b) = downloadPath e"
  by (simp_all add: with_throw_def saved_name_def upload_fileName_def downloadPath_def)

lemma armed_before_click_Nil: "armed_before_click []"
  by (simp add: armed_before_click_def)

lemma armed_before_click_Cons:
  "armed_before_click (x # xs) =
     (x \<noteq> Call ClickDownload \<and> (x = Call WaitForEventDownload \<or> armed_before_click xs))"
proof
  assume a: "armed_before_click (x # xs)"
  have first: "x \<noteq> Call ClickDownload"
    using a unfolding armed_before_click_def by (auto dest: spec [of _ 0])
  have rest: "armed_before_click xs" if "x \<noteq> Call WaitForEventDownload"
    unfolding armed_before_click_def
  proof (intro allI impI)
    fix i
    assume i: "i < length xs" and c: "xs ! i = Call ClickDownload"
    from a i c obtain j where j: "j < Suc i" "(x # xs) ! j = Call WaitForEventDownload"
      unfolding armed_before_click_def by (auto dest!: spec [of _ "Suc i"])
    with that obtain j' where "j = Suc j'" by (cases j) auto
    with j show "\<exists>j<i. xs ! j = Call WaitForEventDownload" by auto
  qed
  from first rest
  show "x \<noteq> Call ClickDownload \<and> (x = Call WaitForEventDownload \<or> armed_before_click xs)"
    by blast
next
  assume b: "x \<noteq> Call ClickDownload \<and> (x = Call WaitForEventDownload \<or> armed_before_click xs)"
  show "armed_before_click (x # xs)"
    unfolding armed_before_click_def
  proof (intro allI impI)
    fix i
    assume i: "i < length (x # xs)" and c: "(x # xs) ! i = Call ClickDownload"
    with b obtain i' where i': "i = Suc i'" by (cases i) auto
    from b show "\<exists>j<i. (x # xs) ! j = Call WaitForEventDownload"
    proof
      assume "x = Call WaitForEventDownload \<or> armed_before_click xs"
      then show ?thesis
      proof
        assume "x = Call WaitForEventDownload"
        with i' show ?thesis by (intro exI [of _ 0]) simp
      next
        assume "armed_before_click xs"
        with i c i' obtain j where "j < i'" "xs ! j = Call WaitForEventDownload"
          unfolding armed_before_click_def by auto
        with i' show ?thesis by (intro exI [of _ "Suc j"]) simp
      qed
    qed
  qed
qed

section \<open>The concrete environments, evaluated\<close>

lemma paths_distinct:
  "SCREENSHOT_PATH \<noteq> AFTER_DOWNLOAD_PATH" "SCREENSHOT_PATH \<noteq> ERROR_STATE_PATH"
  "SCREENSHOT_PATH \<noteq> ERROR_PAGE_PATH" "AFTER_DOWNLOAD_PATH \<noteq> ERROR_STATE_PATH"
  "AFTER_DOWNLOAD_PATH \<noteq> ERROR_PAGE_PATH" "ERROR_STATE_PATH \<noteq> ERROR_PAGE_PATH"
  "AFTER_DOWNLOAD_PATH \<noteq> SCREENSHOT_PATH" "ERROR_STATE_PATH \<noteq> SCREENSHOT_PATH"
  "ERROR_PAGE_PATH \<noteq> SCREENSHOT_PATH" "ERROR_STATE_PATH \<noteq> AFTER_DOWNLOAD_PATH"
  "ERROR_PAGE_PATH \<noteq> AFTER_DOWNLOAD_PATH" "ERROR_PAGE_PATH \<noteq> ERROR_STATE_PATH"
  by (simp_all add: path_defs)

lemma env_ok_facts:
  "throws env_ok = (\<lambda>a. False)"
  "isVisible_result env_ok"
  "\<not> falsy (R2_ACCESS_KEY_ID env_ok)"
  "\<not> falsy (R2_SECRET_ACCESS_KEY env_ok)"
  "suggestedFilename env_ok = ''preopen_20240924.csv''"
  "saved_name env_ok = ''preopen_20240924.csv''"
  "upload_fileName env_ok = ''preopen_20240924.csv''"
  "downloadPath env_ok = ''./downloads/preopen_20240924.csv''"
  "storage_key (new_Date_key env_ok) f = ''nse-preopen/2024-09-24/'' @ f"
  "content_type ''preopen_20240924.csv'' = ''text/csv''"
  by (simp_all add: env_ok_def falsy_def saved_name_def upload_fileName_def or_else_def
      downloadPath_def path_join_def DOWNLOADS_PATH_def storage_key_20240924 date_20240924_def
      content_type_def endsWith_def)

lemma env_one_credential_facts:
  "throws env_one_credential = (\<lambda>a. False)"
  "isVisible_result env_one_credential"
  "\<not> falsy (R2_ACCESS_KEY_ID env_one_credential)"
  "falsy (R2_SECRET_ACCESS_KEY env_one_credential)"
  "suggestedFilename env_one_credential = ''preopen_20240924.csv''"
  "upload_fileName env_one_credential = ''preopen_20240924.csv''"
  "downloadPath env_one_credential = ''./downloads/preopen_20240924.csv''"
  by (simp_all add: env_one_credential_def env_ok_def falsy_def saved_name_def
      upload_fileName_def or_else_def downloadPath_def path_join_def DOWNLOADS_PATH_def)

lemma env_unnamed_facts:
  "throws env_unnamed = (\<lambda>a. False)"
  "isVisible_result env_unnamed"
  "\<not> falsy (R2_ACCESS_KEY_ID env_unnamed)"
  "\<not> falsy (R2_SECRET_ACCESS_KEY env_unnamed)"
  "suggestedFilename env_unnamed = []"
  "saved_name env_unnamed = ''pre-open-data-1727149212000.csv''"
  "upload_fileName env_unnamed = ''pre-open-data-1727149213500.csv''"
  "downloadPath env_unnamed = ''./downloads/pre-open-data-1727149212000.csv''"
  by (simp_all add: env_unnamed_def env_ok_def falsy_def saved_name_def upload_fileName_def
      or_else_def downloadPath_def path_join_def DOWNLOADS_PATH_def synthesized_name_def
      decimal.simps digit_char_def)

lemmas env_throw_simps = env_no_control_def env_unreachable_def env_no_control_no_snapshot_def
  throws_with_throw with_throw_fields env_ok_facts paths_distinct

lemma trace_env_ok: "trace env_ok =
  [Call EnsureDirs, Log LogLaunching, Call Launch, Call NewContext,
   Call NewPage, Log LogNavigating, Call Goto, Log LogWaitingForLoad,
   Call (WaitForTimeout 8000), Log LogTakingInitialScreenshot,
   Call (Screenshot SCREENSHOT_PATH), Call Title,
   Log LogPageTitle, Log LogLookingForDropdown, Call WaitForSelector,
   Log LogFoundDropdown, Call ClickDropdown, Call (WaitForTimeout 2000),
   Call SelectOption, Log LogSelectedAll, Call (WaitForTimeout 3000),
   Log LogLookingForCsv, Call IsVisible, Log LogFoundCsvButton,
   Call WaitForEventDownload, Call ClickDownload, Call AwaitDownload,
   Log (LogDownloadStarted ''preopen_20240924.csv''),
   Call (SaveAs ''./downloads/preopen_20240924.csv''),
   Log (LogDownloadedTo ''./downloads/preopen_20240924.csv''),
   Enter_uploadToR2 ''./downloads/preopen_20240924.csv'' ''preopen_20240924.csv'',
   Log (LogUploading ''preopen_20240924.csv''),
   Call (ReadFileSync ''./downloads/preopen_20240924.csv''),
   Call (Send ''nse-preopen/2024-09-24/preopen_20240924.csv'' ''text/csv''),
   Log (LogUploaded ''nse-preopen/2024-09-24/preopen_20240924.csv''),
   Call (Screenshot AFTER_DOWNLOAD_PATH),
   Log LogExtractionCompleted, Call BrowserClose, Log LogBrowserClosed]"
  unfolding run_defs
  by (simp add: prog_simps env_ok_facts del: seq.simps)

lemma classify_examples:
  "classify (trace env_ok) = Some Completed"
  "classify (trace env_one_credential) = Some Skipped"
  "classify (trace env_no_control) = Some PartialFailure"
  "classify (trace env_unreachable) = Some FatalFailure"
  "classify (trace env_no_control_no_snapshot) = Some FatalFailure"
  unfolding run_defs classify_def
  by (simp_all add: prog_simps env_throw_simps env_one_credential_facts del: seq.simps)

lemma rejected_iff: "rejected e = (\<not> session_opened e \<or> throws e BrowserClose)"
  unfolding run_defs session_opened_def
  by (simp add: prog_simps del: seq.simps)

section \<open>The claims about the scraper\<close>

text \<open>
  Claim C1, as the code has it. Whenever a run sends an object to the store, the key is
  \<open>nse-preopen/{ISO-date}/{fileName}\<close>: the category is the literal \<open>nse-preopen\<close>,
  the date is the UTC calendar date of the clock reading taken in \<open>uploadToR2\<close> (no part
  of the file name enters it), and the file name is the one handed to \<open>uploadToR2\<close>.
  Archiving \<open>preopen_20240924.csv\<close> on 2024-09-24 gives
  \<open>nse-preopen/2024-09-24/preopen_20240924.csv\<close>; two uploads on the same calendar date
  with the same file name give the same key, and uploads on different calendar dates
  never give the same key, whatever the file names.
\<close>

theorem storage_key_of_upload:
  "(Call (Send key ct) \<in> set (trace e) \<longrightarrow>
      key = ''nse-preopen/'' @ iso_date (new_Date_key e) @ ''/'' @ upload_fileName e) \<and>
   (utc_year d = 2024 \<and> utc_month d = 9 \<and> utc_day d = 24 \<longrightarrow>
      storage_key d ''preopen_20240924.csv'' = ''nse-preopen/2024-09-24/preopen_20240924.csv'') \<and>
   (same_day da db \<longrightarrow> storage_key da f = storage_key db f) \<and>
   (valid_date da \<and> valid_date db \<and> \<not> same_day da db \<longrightarrow> storage_key da fa \<noteq> storage_key db fb)"
proof -
  have sent: "Call (Send key ct) \<in> set (trace e) \<longrightarrow>
      key = ''nse-preopen/'' @ iso_date (new_Date_key e) @ ''/'' @ upload_fileName e"
    unfolding run_defs by (simp add: prog_simps storage_key_eq del: seq.simps)
  have example: "utc_year d = 2024 \<and> utc_month d = 9 \<and> utc_day d = 24 \<longrightarrow>
      storage_key d ''preopen_20240924.csv'' = ''nse-preopen/2024-09-24/preopen_20240924.csv''"
    by (simp add: storage_key_20240924)
  have stable: "same_day da db \<longrightarrow> storage_key da f = storage_key db f"
    by (simp add: storage_key_same_day)
  have apart: "valid_date da \<and> valid_date db \<and> \<not> same_day da db \<longrightarrow>
      storage_key da fa \<noteq> storage_key db fb"
    using storage_key_inj [of da db fa fb] by blast
  from sent example stable apart show ?thesis by blast
qed

text \<open>
  The run of \<open>env_ok\<close>, and the days 2024-09-24 and 2024-09-25, as an instance.
\<close>

theorem storage_key_of_upload_witness:
  "Call (Send ''nse-preopen/2024-09-24/preopen_20240924.csv'' ''text/csv'') \<in> set (trace env_ok) \<and>
   ''nse-preopen/2024-09-24/preopen_20240924.csv'' =
     ''nse-preopen/'' @ iso_date (new_Date_key env_ok) @ ''/'' @ upload_fileName env_ok \<and>
   same_day date_20240924 (date_20240924\<lparr>utc_hours := 17\<rparr>) \<and>
   storage_key date_20240924 ''a.csv'' = storage_key (date_20240924\<lparr>utc_hours := 17\<rparr>) ''a.csv'' \<and>
   valid_date date_20240924 \<and> valid_date date_20240925 \<and> \<not> same_day date_20240924 date_20240925 \<and>
   storage_key date_20240924 ''preopen_20240924.csv'' = ''nse-preopen/2024-09-24/preopen_20240924.csv'' \<and>
   storage_key date_20240925 ''preopen_20240924.csv'' \<noteq> ''nse-preopen/2024-09-24/preopen_20240924.csv''"
proof -
  have sent: "Call (Send ''nse-preopen/2024-09-24/preopen_20240924.csv'' ''text/csv'') \<in> set (trace env_ok)"
    by (simp add: trace_env_ok)
  have day: "same_day date_20240924 (date_20240924\<lparr>utc_hours := 17\<rparr>)"
    by (simp add: same_day_def)
  have fields: "utc_year date_20240924 = 2024 \<and> utc_month date_20240924 = 9 \<and> utc_day date_20240924 = 24"
    by (simp add: date_20240924_def)
  have valid: "valid_date date_20240924 \<and> valid_date date_20240925 \<and> \<not> same_day date_20240924 date_20240925"
    by (simp add: valid_date_def same_day_def date_20240924_def date_20240925_def)
  note A = storage_key_of_upload [where key = "''nse-preopen/2024-09-24/preopen_20240924.csv''"
      and ct = "''text/csv''" and e = env_ok and d = date_20240924 and da = date_20240924
      and db = "date_20240924\<lparr>utc_hours := 17\<rparr>" and f = "''a.csv''"
      and fa = "''preopen_20240924.csv''" and fb = "''preopen_20240924.csv''"]
  note B = storage_key_of_upload [where da = date_20240924 and db = date_20240925
      and fa = "''preopen_20240924.csv''" and fb = "''preopen_20240924.csv''"]
  from A sent have key: "''nse-preopen/2024-09-24/preopen_20240924.csv'' =
     ''nse-preopen/'' @ iso_date (new_Date_key env_ok) @ ''/'' @ upload_fileName env_ok"
    by blast
  from A fields have ex: "storage_key date_20240924 ''preopen_20240924.csv'' =
     ''nse-preopen/2024-09-24/preopen_20240924.csv''"
    by blast
  from A day have st: "storage_key date_20240924 ''a.csv'' =
     storage_key (date_20240924\<lparr>utc_hours := 17\<rparr>) ''a.csv''"
    by blast
  from B valid have "storage_key date_20240924 ''preopen_20240924.csv'' \<noteq>
     storage_key date_20240925 ''preopen_20240924.csv''"
    by blast
  with ex have ne: "storage_key date_20240925 ''preopen_20240924.csv'' \<noteq>
     ''nse-preopen/2024-09-24/preopen_20240924.csv''"
    by metis
  from sent key day st valid ex ne show ?thesis by blast
qed

text \<open>
  The key of that run does not start with \<open>pre-open-market\<close>.
\<close>

theorem storage_key_category_counterexample:
  "Call (Send ''nse-preopen/2024-09-24/preopen_20240924.csv'' ''text/csv'') \<in> set (trace env_ok) \<and>
   Call (Send ''pre-open-market/2024-09-24/preopen_20240924.csv'' ''text/csv'') \<notin> set (trace env_ok)"
  by (simp add: trace_env_ok)

text \<open>
  Claim C2, as the code has it. In every run that reaches the archival step, the upload
  is skipped, with the skip notice and without the failure notice, exactly when at least
  one of the two credentials is absent or empty; the upload is attempted (the file is
  read for it) exactly when both are present, and the object is then sent unless reading
  the file fails.
\<close>

theorem upload_skipped_iff_credential_missing:
  "Enter_uploadToR2 p f \<in> set (trace e) \<longrightarrow>
     (Log LogSkippingUpload \<in> set (trace e)) =
       (falsy (R2_ACCESS_KEY_ID e) \<or> falsy (R2_SECRET_ACCESS_KEY e)) \<and>
     (Call (ReadFileSync p) \<in> set (trace e)) =
       (\<not> falsy (R2_ACCESS_KEY_ID e) \<and> \<not> falsy (R2_SECRET_ACCESS_KEY e)) \<and>
     (Call (Send (storage_key (new_Date_key e) f) (content_type f)) \<in> set (trace e)) =
       (\<not> falsy (R2_ACCESS_KEY_ID e) \<and> \<not> falsy (R2_SECRET_ACCESS_KEY e) \<and>
        \<not> throws e (ReadFileSync p)) \<and>
     (Log LogSkippingUpload \<in> set (trace e) \<longrightarrow> Log LogUploadFailed \<notin> set (trace e))"
  unfolding run_defs
  by (simp add: prog_simps del: seq.simps)

text \<open>
  With both credentials the run of \<open>env_ok\<close> uploads; with the secret missing the run
  of \<open>env_one_credential\<close> skips.
\<close>

theorem upload_skipped_iff_credential_missing_witness:
  "Enter_uploadToR2 ''./downloads/preopen_20240924.csv'' ''preopen_20240924.csv''
     \<in> set (trace env_ok) \<and>
   Log LogSkippingUpload \<notin> set (trace env_ok) \<and>
   Call (ReadFileSync ''./downloads/preopen_20240924.csv'') \<in> set (trace env_ok)"
proof -
  have entered: "Enter_uploadToR2 ''./downloads/preopen_20240924.csv'' ''preopen_20240924.csv''
     \<in> set (trace env_ok)"
    by (simp add: trace_env_ok)
  from upload_skipped_iff_credential_missing [of "''./downloads/preopen_20240924.csv''"
      "''preopen_20240924.csv''" env_ok] entered
  show ?thesis by (simp add: env_ok_facts)
qed

text \<open>
  The access key id is configured and the secret is not: the upload is skipped, though
  one credential is present.
\<close>

theorem upload_skipped_with_one_credential_counterexample:
  "\<not> falsy (R2_ACCESS_KEY_ID env_one_credential) \<and>
   Enter_uploadToR2 ''./downloads/preopen_20240924.csv'' ''preopen_20240924.csv''
     \<in> set (trace env_one_credential) \<and>
   Log LogSkippingUpload \<in> set (trace env_one_credential) \<and>
   Call (ReadFileSync ''./downloads/preopen_20240924.csv'') \<notin> set (trace env_one_credential)"
  unfolding run_defs
  by (simp add: prog_simps env_one_credential_facts del: seq.simps)

text \<open>
  Claim C3. In every run, each click on the download trigger is preceded in the trace by
  the call that arms the download listener.
\<close>

theorem download_listener_armed_before_click:
  "armed_before_click (trace e)"
  unfolding run_defs
  by (simp add: prog_simps armed_before_click_Nil armed_before_click_Cons del: seq.simps)

text \<open>In the run of \<open>env_ok\<close> the click is event 25 and the listener is armed at 24.\<close>

theorem download_listener_armed_before_click_witness:
  "25 < length (trace env_ok) \<and> trace env_ok ! 25 = Call ClickDownload \<and>
   (\<exists>j<25. trace env_ok ! j = Call WaitForEventDownload)"
proof -
  have click: "25 < length (trace env_ok) \<and> trace env_ok ! 25 = Call ClickDownload"
    by (simp add: trace_env_ok)
  with download_listener_armed_before_click [of env_ok]
  show ?thesis unfolding armed_before_click_def by blast
qed

text \<open>
  Claim C4, as the code has it. Every run that created its page (the directories, the
  launch, the context and the page all succeeded) calls \<open>browser.close()\<close> exactly once,
  and every run that ends in a terminal outcome is such a run.
\<close>

theorem session_closed_exactly_once:
  "(session_opened e \<longrightarrow> count_list (trace e) (Call BrowserClose) = 1) \<and>
   (classify (trace e) \<noteq> None \<longrightarrow> session_opened e)"
  unfolding run_defs classify_def session_opened_def
  by (simp add: prog_simps del: seq.simps)

text \<open>A completed run, a partial failure and a fatal failure.\<close>

theorem session_closed_exactly_once_witness:
  "session_opened env_ok \<and> classify (trace env_ok) = Some Completed \<and>
   count_list (trace env_ok) (Call BrowserClose) = 1 \<and>
   session_opened env_no_control \<and> classify (trace env_no_control) = Some PartialFailure \<and>
   count_list (trace env_no_control) (Call BrowserClose) = 1 \<and>
   session_opened env_unreachable \<and> classify (trace env_unreachable) = Some FatalFailure \<and>
   count_list (trace env_unreachable) (Call BrowserClose) = 1"
  using session_closed_exactly_once [of env_ok]
    session_closed_exactly_once [of env_no_control]
    session_closed_exactly_once [of env_unreachable]
  by (simp add: classify_examples)

text \<open>
  The browser is launched and \<open>context.newPage()\<close> throws: the \<open>try\<close> statement is never
  entered, \<open>browser.close()\<close> is never called and \<open>run\<close> rejects.
\<close>

theorem session_left_open_counterexample:
  "\<not> throws env_no_page Launch \<and> Call Launch \<in> set (trace env_no_page) \<and>
   count_list (trace env_no_page) (Call BrowserClose) = 0 \<and> rejected env_no_page"
  unfolding run_defs env_no_page_def
  by (simp add: prog_simps throws_with_throw with_throw_fields env_ok_facts del: seq.simps)

text \<open>
  Claim C5, as the code has it. A failure of the snapshot at the fatal-error checkpoint
  is caught and logged and leaves the classification of the run as it is. A failure of
  a snapshot at any checkpoint stays inside the run: whether \<open>run\<close> itself throws does
  not depend on it.
\<close>

theorem fatal_error_snapshot_failure_is_harmless:
  "classify (trace (with_throw e (Screenshot ERROR_PAGE_PATH) True)) =
     classify (trace (with_throw e (Screenshot ERROR_PAGE_PATH) False)) \<and>
   (Call (Screenshot ERROR_PAGE_PATH) \<in> set (trace (with_throw e (Screenshot ERROR_PAGE_PATH) True))
      \<longrightarrow> Log LogCouldNotTakeErrorScreenshot
        \<in> set (trace (with_throw e (Screenshot ERROR_PAGE_PATH) True))) \<and>
   rejected (with_throw e (Screenshot p) True) = rejected (with_throw e (Screenshot p) False)"
proof -
  let ?e = "\<lambda>b. with_throw e (Screenshot ERROR_PAGE_PATH) b"
  have call: "perform (?e b) x = perform e x" if "x \<noteq> Screenshot ERROR_PAGE_PATH" for b x
    using that by (simp add: perform_def throws_with_throw)
  have upload: "uploadToR2 (?e b) f n = uploadToR2 e f n" for b f n
    by (simp add: uploadToR2_def call with_throw_fields)
  have download: "download_block (?e b) = download_block e" for b
    by (simp add: download_block_def call upload with_throw_fields paths_distinct)
  have selection: "selection_block (?e b) = selection_block e"
    "selection_catch (?e b) = selection_catch e" for b
    by (simp_all add: selection_block_def selection_catch_def call download with_throw_fields
        paths_distinct cong: if_cong)
  have blocks: "bootstrap (?e b) = bootstrap e" "main_block (?e b) = main_block e"
    "main_finally (?e b) = main_finally e" for b
    by (simp_all add: bootstrap_def main_block_def main_finally_def call selection
        paths_distinct)
  have tr: "trace (?e b) = snd (bootstrap e) @ (case fst (bootstrap e) of None \<Rightarrow> []
      | Some u \<Rightarrow> snd (main_block e) @
          (case fst (main_block e) of None \<Rightarrow> snd (main_catch (?e b)) | Some u \<Rightarrow> []) @
          snd (main_finally e))" for b
    by (simp add: trace_def run_def prog_simps blocks split: option.splits)
  have handler: "snd (main_catch (?e True)) =
      [Log LogErrorDuringAutomation, Call PageUrl] @
      (if throws e PageUrl then [] else [Log LogCurrentUrl, Call (Screenshot ERROR_PAGE_PATH)]) @
      [Log LogCouldNotTakeErrorScreenshot]"
    "snd (main_catch (?e False)) =
      [Log LogErrorDuringAutomation, Call PageUrl] @
      (if throws e PageUrl then [Log LogCouldNotTakeErrorScreenshot]
       else [Log LogCurrentUrl, Call (Screenshot ERROR_PAGE_PATH)])"
    by (simp_all add: main_catch_def prog_simps throws_with_throw del: seq.simps)
  have mem: "(Log l \<in> set (trace (?e True))) = (Log l \<in> set (trace (?e False)))"
    if "l \<noteq> LogCouldNotTakeErrorScreenshot" for l
    unfolding tr handler using that by (auto split: option.splits)
  have same: "classify (trace (?e True)) = classify (trace (?e False))"
    unfolding classify_def by (simp add: mem)
  have absent: "Call (Screenshot ERROR_PAGE_PATH) \<notin> set (snd (bootstrap e))"
    "Call (Screenshot ERROR_PAGE_PATH) \<notin> set (snd (main_finally e))"
    "Call (Screenshot ERROR_PAGE_PATH) \<notin> set (snd (main_block e))"
    by (simp_all add: bootstrap_def main_finally_def main_block_def selection_block_def
        selection_catch_def download_block_def uploadToR2_def prog_simps paths_distinct
        del: seq.simps)
  have logged: "Call (Screenshot ERROR_PAGE_PATH) \<in> set (trace (?e True))
      \<longrightarrow> Log LogCouldNotTakeErrorScreenshot \<in> set (trace (?e True))"
    unfolding tr handler using absent
    by (auto split: option.splits)
  have inside: "rejected (with_throw e (Screenshot p) True) =
      rejected (with_throw e (Screenshot p) False)"
    by (simp add: rejected_iff session_opened_def throws_with_throw)
  from same logged inside show ?thesis by blast
qed

text \<open>The target is unreachable and the snapshot of the error page fails as well.\<close>

theorem fatal_error_snapshot_failure_is_harmless_witness:
  "Call (Screenshot ERROR_PAGE_PATH)
     \<in> set (trace (with_throw env_unreachable (Screenshot ERROR_PAGE_PATH) True)) \<and>
   Log LogCouldNotTakeErrorScreenshot
     \<in> set (trace (with_throw env_unreachable (Screenshot ERROR_PAGE_PATH) True)) \<and>
   classify (trace (with_throw env_unreachable (Screenshot ERROR_PAGE_PATH) True)) =
     Some FatalFailure \<and>
   classify (trace (with_throw env_unreachable (Screenshot ERROR_PAGE_PATH) False)) =
     Some FatalFailure"
proof -
  have tried: "Call (Screenshot ERROR_PAGE_PATH)
     \<in> set (trace (with_throw env_unreachable (Screenshot ERROR_PAGE_PATH) True))"
    unfolding run_defs by (simp add: prog_simps env_throw_simps del: seq.simps)
  have fatal: "classify (trace (with_throw env_unreachable (Screenshot ERROR_PAGE_PATH) False)) =
     Some FatalFailure"
    unfolding run_defs classify_def by (simp add: prog_simps env_throw_simps del: seq.simps)
  from fatal_error_snapshot_failure_is_harmless [of env_unreachable] tried fatal
  show ?thesis by simp
qed

text \<open>
  When the initial snapshot fails, a run that would have completed ends in the fatal
  handler.
\<close>

theorem initial_snapshot_failure_counterexample:
  "classify (trace (with_throw env_ok (Screenshot SCREENSHOT_PATH) False)) = Some Completed \<and>
   classify (trace (with_throw env_ok (Screenshot SCREENSHOT_PATH) True)) = Some FatalFailure"
  unfolding run_defs classify_def
  by (simp add: prog_simps env_throw_simps del: seq.simps)

text \<open>
  Claim C6, as the code has it. In every run in which the wait for the scope-selection
  control fails, the download trigger is never looked up, no call of the Download
  Capturer is made, and the post-selection-error snapshot is attempted; if that snapshot
  does not fail, the run ends as a partial failure.
\<close>

theorem control_absent_is_partial_failure:
  "Call WaitForSelector \<in> set (trace e) \<and> throws e WaitForSelector \<longrightarrow>
     filter is_capturer_event (trace e) = [] \<and>
     Log LogLookingForCsv \<notin> set (trace e) \<and>
     Call (Screenshot ERROR_STATE_PATH) \<in> set (trace e) \<and>
     (\<not> throws e (Screenshot ERROR_STATE_PATH) \<longrightarrow> classify (trace e) = Some PartialFailure)"
  unfolding run_defs classify_def
  by (simp add: prog_simps is_capturer_event_def del: seq.simps)

text \<open>The dropdown never appears, all else works.\<close>

theorem control_absent_is_partial_failure_witness:
  "Call WaitForSelector \<in> set (trace env_no_control) \<and> throws env_no_control WaitForSelector \<and>
   \<not> throws env_no_control (Screenshot ERROR_STATE_PATH) \<and>
   filter is_capturer_event (trace env_no_control) = [] \<and>
   Call (Screenshot ERROR_STATE_PATH) \<in> set (trace env_no_control) \<and>
   classify (trace env_no_control) = Some PartialFailure"
proof -
  have reached: "Call WaitForSelector \<in> set (trace env_no_control)"
    unfolding run_defs by (simp add: prog_simps env_throw_simps del: seq.simps)
  have env: "throws env_no_control WaitForSelector \<and>
      \<not> throws env_no_control (Screenshot ERROR_STATE_PATH)"
    by (simp add: env_throw_simps)
  from control_absent_is_partial_failure [of env_no_control] reached env
  show ?thesis by simp
qed

text \<open>
  The dropdown never appears and the snapshot of the error state fails: the run ends in
  the fatal handler.
\<close>

theorem control_absent_snapshot_fails_counterexample:
  "Call WaitForSelector \<in> set (trace env_no_control_no_snapshot) \<and>
   throws env_no_control_no_snapshot WaitForSelector \<and>
   classify (trace env_no_control_no_snapshot) = Some FatalFailure"
  unfolding run_defs classify_def
  by (simp add: prog_simps env_throw_simps del: seq.simps)

text \<open>
  Claim C7. In every run in which the navigation to the target fails, the outcome is a
  fatal failure, the Archiver is never entered and no call is made for it, and exactly
  one snapshot is attempted if the URL of the page can still be read (none otherwise).
\<close>

theorem navigation_failure_is_fatal:
  "Call Goto \<in> set (trace e) \<and> throws e Goto \<longrightarrow>
     classify (trace e) = Some FatalFailure \<and>
     filter is_archiver_event (trace e) = [] \<and>
     length (filter is_screenshot (trace e)) = (if throws e PageUrl then 0 else 1)"
  unfolding run_defs classify_def
  by (simp add: prog_simps is_archiver_event_def is_screenshot_def del: seq.simps)

text \<open>The target cannot be reached, the URL of the page can be read.\<close>

theorem navigation_failure_is_fatal_witness:
  "Call Goto \<in> set (trace env_unreachable) \<and> throws env_unreachable Goto \<and>
   \<not> throws env_unreachable PageUrl \<and>
   classify (trace env_unreachable) = Some FatalFailure \<and>
   filter is_archiver_event (trace env_unreachable) = [] \<and>
   length (filter is_screenshot (trace env_unreachable)) = 1"
proof -
  have reached: "Call Goto \<in> set (trace env_unreachable)"
    unfolding run_defs by (simp add: prog_simps env_throw_simps del: seq.simps)
  have env: "throws env_unreachable Goto \<and> \<not> throws env_unreachable PageUrl"
    by (simp add: env_throw_simps)
  from navigation_failure_is_fatal [of env_unreachable] reached env
  show ?thesis by simp
qed

text \<open>
  Claim C8 at a download without a suggested name, the clock advancing by 1500 ms while
  the file is saved: the file is saved as \<open>pre-open-data-1727149212000.csv\<close> and handed
  to \<open>uploadToR2\<close> as \<open>pre-open-data-1727149213500.csv\<close>. Both names are non-empty.
\<close>

theorem archiver_file_name_differs_from_saved_name:
  "suggestedFilename env_unnamed = [] \<and>
   Call (SaveAs (path_join DOWNLOADS_PATH ''pre-open-data-1727149212000.csv''))
     \<in> set (trace env_unnamed) \<and>
   Enter_uploadToR2 (path_join DOWNLOADS_PATH ''pre-open-data-1727149212000.csv'')
     ''pre-open-data-1727149213500.csv'' \<in> set (trace env_unnamed) \<and>
   saved_name env_unnamed = ''pre-open-data-1727149212000.csv'' \<and>
   upload_fileName env_unnamed = ''pre-open-data-1727149213500.csv'' \<and>
   upload_fileName env_unnamed \<noteq> saved_name env_unnamed"
  unfolding run_defs
  by (simp add: prog_simps env_unnamed_facts path_join_def DOWNLOADS_PATH_def del: seq.simps)

section \<open>The rate limiter\<close>

lemma serve_snoc: "serve (reqs @ [r]) = serve_step (serve reqs) r"
  by (simp add: serve_def)

lemma serve_step_eq:
  "serve_step st r =
     (let ip = caller (fst r);
          kept = filter (\<lambda>t. snd r - t < WINDOW_MS) (fst st ip);
          ok = (length kept < MAX_REQUESTS)
      in ((fst st)(ip := kept @ (if ok then [snd r] else [])),
          snd st @ (if ok then [(ip, snd r)] else [])))"
  by (simp add: serve_step_def rate_limit_def RateLimiter_fetch_def Let_def not_le)

lemma allowed_in_passed_times:
  "allowed_in ip lo hi passed = length (filter (\<lambda>t. lo \<le> t \<and> t < hi) (passed_times ip passed))"
  by (induction passed) (auto simp: allowed_in_def passed_times_def)

lemma length_filter_mono:
  "(\<And>x. x \<in> set xs \<Longrightarrow> P x \<Longrightarrow> Q x) \<Longrightarrow> length (filter P xs) \<le> length (filter Q xs)"
  by (induction xs) auto

lemma filter_window_later:
  "(n::int) \<le> now \<Longrightarrow>
   filter (\<lambda>t. now - t < w) (filter (\<lambda>t. n - t < w) xs) = filter (\<lambda>t. now - t < w) xs"
  by (induction xs) auto

lemma serve_limiter_state:
  "sorted (map snd reqs) \<Longrightarrow> (\<forall>t\<in>set (map snd reqs). t \<le> now) \<Longrightarrow>
      filter (\<lambda>t. now - t < WINDOW_MS) (fst (serve reqs) ip) =
      filter (\<lambda>t. now - t < WINDOW_MS) (passed_times ip (snd (serve reqs)))"
proof (induction reqs arbitrary: now ip rule: rev_induct)
  case Nil
  then show ?case by (simp add: serve_def passed_times_def)
next
  case (snoc r reqs)
  let ?n = "snd r"
  from snoc.prems(1) have sorted: "sorted (map snd reqs)" and le: "\<forall>t\<in>set (map snd reqs). t \<le> ?n"
    by (auto simp: sorted_append)
  from snoc.prems(2) have n_now: "?n \<le> now" and le_now: "\<forall>t\<in>set (map snd reqs). t \<le> now"
    by auto
  have IHn: "filter (\<lambda>t. ?n - t < WINDOW_MS) (fst (serve reqs) i) =
      filter (\<lambda>t. ?n - t < WINDOW_MS) (passed_times i (snd (serve reqs)))" for i
    using snoc.IH [OF sorted le] .
  have IHnow: "filter (\<lambda>t. now - t < WINDOW_MS) (fst (serve reqs) i) =
      filter (\<lambda>t. now - t < WINDOW_MS) (passed_times i (snd (serve reqs)))" for i
    using snoc.IH [OF sorted le_now] .
  show ?case
  proof (cases "ip = caller (fst r)")
    case False
    then show ?thesis
      by (simp add: serve_snoc serve_step_eq Let_def passed_times_def IHnow [unfolded passed_times_def])
  next
    case True
    let ?kept = "filter (\<lambda>t. ?n - t < WINDOW_MS) (fst (serve reqs) ip)"
    let ?new = "if length ?kept < MAX_REQUESTS then [?n] else []"
    have st: "fst (serve (reqs @ [r])) ip = ?kept @ ?new"
      using True by (simp add: serve_snoc serve_step_eq Let_def)
    have ps: "passed_times ip (snd (serve (reqs @ [r]))) = passed_times ip (snd (serve reqs)) @ ?new"
      using True by (simp add: serve_snoc serve_step_eq Let_def passed_times_def)
    have "filter (\<lambda>t. now - t < WINDOW_MS) ?kept = filter (\<lambda>t. now - t < WINDOW_MS) (fst (serve reqs) ip)"
      using n_now by (rule filter_window_later)
    then show ?thesis
      unfolding st ps by (simp add: IHnow del: filter_filter)
  qed
qed

lemma serve_window_bound:
  "sorted (map snd reqs) \<Longrightarrow> allowed_in ip a (a + WINDOW_MS) (snd (serve reqs)) \<le> MAX_REQUESTS"
proof (induction reqs arbitrary: a ip rule: rev_induct)
  case Nil
  then show ?case by (simp add: serve_def allowed_in_def)
next
  case (snoc r reqs)
  let ?n = "snd r"
  let ?ip0 = "caller (fst r)"
  from snoc.prems(1) have sorted: "sorted (map snd reqs)" and le: "\<forall>t\<in>set (map snd reqs). t \<le> ?n"
    by (auto simp: sorted_append)
  note IH = snoc.IH [OF sorted]
  let ?kept = "filter (\<lambda>t. ?n - t < WINDOW_MS) (fst (serve reqs) ?ip0)"
  have kept: "?kept = filter (\<lambda>t. ?n - t < WINDOW_MS) (passed_times ?ip0 (snd (serve reqs)))"
    using serve_limiter_state [OF sorted le] .
  show ?case
  proof (cases "length ?kept < MAX_REQUESTS \<and> ip = ?ip0 \<and> a \<le> ?n \<and> ?n < a + WINDOW_MS")
    case False
    then have "allowed_in ip a (a + WINDOW_MS) (snd (serve (reqs @ [r]))) =
        allowed_in ip a (a + WINDOW_MS) (snd (serve reqs))"
      by (auto simp: serve_snoc serve_step_eq Let_def allowed_in_def)
    with IH show ?thesis by simp
  next
    case True
    then have "allowed_in ip a (a + WINDOW_MS) (snd (serve (reqs @ [r]))) =
        Suc (allowed_in ?ip0 a (a + WINDOW_MS) (snd (serve reqs)))"
      by (simp add: serve_snoc serve_step_eq Let_def allowed_in_def)
    moreover have "allowed_in ?ip0 a (a + WINDOW_MS) (snd (serve reqs)) \<le> length ?kept"
      unfolding kept allowed_in_passed_times
      using True by (intro length_filter_mono) auto
    ultimately show ?thesis using True by simp
  qed
qed

lemma serve_rejects:
  assumes "sorted (map snd reqs)" "\<forall>t\<in>set (map snd reqs). t \<le> now"
    and "MAX_REQUESTS \<le> allowed_in (caller h) (now - WINDOW_MS + 1) (now + 1) (snd (serve reqs))"
  shows "fst (rate_limit h now (fst (serve reqs))) = Some (JsonError 429 ''Rate limit exceeded'')"
proof -
  let ?kept = "filter (\<lambda>t. now - t < WINDOW_MS) (fst (serve reqs) (caller h))"
  have "?kept = filter (\<lambda>t. now - t < WINDOW_MS) (passed_times (caller h) (snd (serve reqs)))"
    using serve_limiter_state [OF assms(1,2)] .
  moreover have "allowed_in (caller h) (now - WINDOW_MS + 1) (now + 1) (snd (serve reqs))
      \<le> length (filter (\<lambda>t. now - t < WINDOW_MS) (passed_times (caller h) (snd (serve reqs))))"
    unfolding allowed_in_passed_times by (intro length_filter_mono) auto
  ultimately have "MAX_REQUESTS \<le> length ?kept" using assms(3) by simp
  then show ?thesis
    by (simp add: rate_limit_def RateLimiter_fetch_def Let_def)
qed

lemma serve_burst: "serve burst = ((\<lambda>ip. [])(''203.0.113.7'' := [1000..1029]),
     map (\<lambda>t. (''203.0.113.7'', t)) [1000..1029])"
  by (simp add: serve_def burst_def serve_step_eq caller_def falsy_def WINDOW_MS_def
      MAX_REQUESTS_def Let_def upto_rec_numeral)

section \<open>The list of dates\<close>

lemma match_date_Some:
  assumes "match_date k = Some d"
  shows "date_shaped d \<and> endsWith k (d @ ''.csv'')"
proof -
  let ?tail = "drop (length k - 14) k"
  from assms have len: "14 \<le> length k" and shaped: "date_shaped (take 10 ?tail)"
    and ext: "drop 10 ?tail = ''.csv''" and d: "d = take 10 ?tail"
    by (auto simp: match_date_def Let_def split: if_splits)
  have "d @ ''.csv'' = take 10 ?tail @ drop 10 ?tail"
    using d ext by simp
  then have "d @ ''.csv'' = ?tail" by (simp only: append_take_drop_id)
  moreover have "length ?tail = 14" using len by simp
  ultimately have "endsWith k (d @ ''.csv'')"
    using len by (simp add: endsWith_def)
  with shaped d show ?thesis by simp
qed

lemma collect_dates_acc:
  "set (foldl (\<lambda>s key. case match_date key of None \<Rightarrow> s | Some d \<Rightarrow> Set_add s d) acc keys) =
     set acc \<union> {d. \<exists>k\<in>set keys. match_date k = Some d}"
  by (induction keys arbitrary: acc) (auto simp: Set_add_def split: option.splits)

lemma collect_dates_distinct_acc:
  "distinct acc \<Longrightarrow>
   distinct (foldl (\<lambda>s key. case match_date key of None \<Rightarrow> s | Some d \<Rightarrow> Set_add s d) acc keys)"
  by (induction keys arbitrary: acc) (auto simp: Set_add_def split: option.splits)

lemma set_collect_dates: "set (collect_dates keys) = {d. \<exists>k\<in>set keys. match_date k = Some d}"
  by (simp add: collect_dates_def collect_dates_acc)

lemma distinct_collect_dates: "distinct (collect_dates keys)"
  by (simp add: collect_dates_def collect_dates_distinct_acc)

lemma R2_list_keys:
  "R2_list b prefix = Some objects \<Longrightarrow> k \<in> set objects \<Longrightarrow>
     k \<in> set (object_keys b) \<and> startsWith k prefix"
  by (auto simp: R2_list_def split: if_splits dest!: in_set_takeD)

lemma set_js_slice: "set (js_slice xs s e) \<subseteq> set xs"
  by (auto simp: js_slice_def Let_def dest!: in_set_takeD in_set_dropD)

lemma distinct_js_slice: "distinct xs \<Longrightarrow> distinct (js_slice xs s e)"
  by (simp add: js_slice_def Let_def)

lemma sorted_wrt_js_slice: "sorted_wrt P xs \<Longrightarrow> sorted_wrt P (js_slice xs s e)"
  by (simp add: js_slice_def Let_def sorted_wrt_take sorted_wrt_drop)

lemma Math_trunc_of_int: "Math_trunc (of_int i) = i"
  by (simp add: Math_trunc_def)

lemma rel_index_whole:
  "rel_index (whole i) len = (if i < 0 then nat (max (int len + i) 0) else min (nat i) len)"
  by (simp add: rel_index_def whole_def Math_trunc_of_int)

lemma length_js_slice_page:
  "0 < l \<Longrightarrow> int (length (js_slice xs (whole s) (whole (s + l)))) \<le> l"
  by (auto simp: js_slice_def Let_def rel_index_whole)

lemma whole_arith:
  "num_sub (whole a) (whole b) = whole (a - b)"
  "num_mul (whole a) (whole b) = whole (a * b)"
  "num_add (whole a) (whole b) = whole (a + b)"
  by (simp_all add: whole_def num_sub_def num_neg_def)

lemma page_bounds_whole:
  "num_add (num_mul (num_sub (whole p) (whole 1)) (whole l)) (whole l) = whole ((p - 1) * l + l)"
  by (simp add: whole_arith)

lemma total_pages_whole:
  "l \<noteq> 0 \<Longrightarrow> Math_ceil (num_div (Finite (real n)) (whole l)) =
     whole \<lceil>real n / real_of_int l\<rceil>"
  by (simp add: whole_def Math_ceil_def)

lemma truthy_or_default: "truthy d \<Longrightarrow> truthy (or_default q d)"
  by (simp add: or_default_def split: option.splits)

lemma truthy_whole: "truthy (whole i) = (i \<noteq> 0)"
  by (simp add: truthy_def whole_def)

lemma sorted_desc_rev_sort: "sorted_wrt (\<lambda>x y. y \<le> x) (rev (sort (xs :: string list)))"
  by (simp add: sorted_wrt_rev)

lemma ceiling_values: "\<lceil>(1::real) / 5\<rceil> = 1" "\<lceil>- 1 :: real\<rceil> = - 1" "\<lceil>- 2 :: real\<rceil> = - 2"
  by (simp_all add: ceiling_eq_iff)

lemmas list_dates_eval = ceiling_values listDates_def R2_list_def startsWith_def collect_dates_def
  match_date_def date_shaped_def is_digit_def Set_add_def or_default_def js_slice_def
  rel_index_def Math_trunc_def truthy_def whole_def num_sub_def num_neg_def Math_ceil_def Let_def

lemma list_dates_defaults: "listDates bucket_two_days None None = JsonDates 200 body_defaults"
  by (simp add: list_dates_eval bucket_two_days_def body_defaults_def)

section \<open>The claims about the read-API\<close>

text \<open>
  Claim C9. The requests are served in the order of their clock readings. Of the requests
  of one caller that were let through, at most 30 have their time stamp in any window
  of 60000 milliseconds; and a request that arrives when 30 requests of the same caller
  were let through within the preceding 60000 milliseconds is answered by the middleware
  with status 429 and the payload \<open>{error: "Rate limit exceeded"}\<close>.
\<close>

theorem rate_limit_sliding_window:
  assumes "sorted (map snd reqs)"
  shows "WINDOW_MS = 60000 \<and> MAX_REQUESTS = 30 \<and>
    allowed_in ip a (a + WINDOW_MS) (snd (serve reqs)) \<le> MAX_REQUESTS \<and>
    ((\<forall>t\<in>set (map snd reqs). t \<le> now) \<and>
     MAX_REQUESTS \<le> allowed_in (caller h) (now - WINDOW_MS + 1) (now + 1) (snd (serve reqs)) \<longrightarrow>
       fst (rate_limit h now (fst (serve reqs))) = Some (JsonError 429 ''Rate limit exceeded''))"
  using serve_window_bound [OF assms, of ip a] serve_rejects [OF assms, of now h]
  by (simp add: WINDOW_MS_def MAX_REQUESTS_def)

text \<open>
  Thirty requests of one caller between 1000 and 1029 are all let through; the next one,
  at 1030, is rejected.
\<close>

theorem rate_limit_sliding_window_witness:
  "sorted (map snd burst) \<and>
   allowed_in ''203.0.113.7'' 1000 (1000 + WINDOW_MS) (snd (serve burst)) = 30 \<and>
   fst (rate_limit (Some ''203.0.113.7'') 1030 (fst (serve burst))) =
     Some (JsonError 429 ''Rate limit exceeded'')"
proof -
  have sorted: "sorted (map snd burst)"
    by (simp add: burst_def upto_rec_numeral)
  have full: "allowed_in ''203.0.113.7'' 1000 (1000 + WINDOW_MS) (snd (serve burst)) = 30"
    by (simp add: serve_burst allowed_in_def WINDOW_MS_def upto_rec_numeral)
  have before: "\<forall>t\<in>set (map snd burst). t \<le> 1030"
    by (simp add: burst_def upto_rec_numeral)
  have recent: "MAX_REQUESTS \<le> allowed_in (caller (Some ''203.0.113.7''))
      (1030 - WINDOW_MS + 1) (1030 + 1) (snd (serve burst))"
    by (simp add: serve_burst allowed_in_def WINDOW_MS_def MAX_REQUESTS_def caller_def falsy_def
        upto_rec_numeral)
  from rate_limit_sliding_window [OF sorted, of "''203.0.113.7''" 1000 1030 "Some ''203.0.113.7''"]
    before recent
  have "fst (rate_limit (Some ''203.0.113.7'') 1030 (fst (serve burst))) =
     Some (JsonError 429 ''Rate limit exceeded'')"
    by blast
  with sorted full show ?thesis by blast
qed

text \<open>
  Claim C10, as the code has it. Whatever the store holds and whatever page and limit
  are asked for (1 and 10 when absent, zero or not a number), a successful answer has
  status 200 and lists only dates of the shape \<open>YYYY-MM-DD\<close> taken from keys of the store
  that start with \<open>pre-open-market/\<close> and end in the date followed by \<open>.csv\<close>, without
  duplicates, in descending order. When the limit is a whole number, \<open>totalPages\<close> is the
  ceiling of \<open>totalCount\<close> divided by the limit; when page and limit are whole numbers
  and the limit is positive, the page holds at most \<open>limit\<close> dates.
\<close>

theorem list_dates_page:
  assumes "listDates b qp ql = JsonDates st body"
  shows "st = 200 \<and> page body = or_default qp (whole 1) \<and> limit body = or_default ql (whole 10) \<and>
    (\<forall>d\<in>set (dates body). date_shaped d \<and>
       (\<exists>k\<in>set (object_keys b). startsWith k ''pre-open-market/'' \<and> endsWith k (d @ ''.csv''))) \<and>
    distinct (dates body) \<and> sorted_wrt (\<lambda>x y. y \<le> x) (dates body) \<and>
    (\<forall>l. limit body = whole l \<longrightarrow>
       totalPages body = whole \<lceil>real (totalCount body) / real_of_int l\<rceil>) \<and>
    (\<forall>p l. page body = whole p \<and> limit body = whole l \<and> 0 < l \<longrightarrow>
       int (length (dates body)) \<le> l)"
proof -
  from assms obtain objects where ls: "R2_list b ''pre-open-market/'' = Some objects"
    by (auto simp: listDates_def Let_def split: option.splits)
  let ?all = "rev (sort (collect_dates objects))"
  let ?page = "or_default qp (whole 1)"
  let ?limit = "or_default ql (whole 10)"
  let ?start = "num_mul (num_sub ?page (whole 1)) ?limit"
  from assms ls have st: "st = 200"
    and body: "body = \<lparr>dates = js_slice ?all ?start (num_add ?start ?limit),
        totalCount = length ?all, page = ?page, limit = ?limit,
        totalPages = Math_ceil (num_div (Finite (real (length ?all))) ?limit)\<rparr>"
    by (simp_all add: listDates_def Let_def)
  have sub: "set (dates body) \<subseteq> set (collect_dates objects)"
    using set_js_slice [of ?all ?start "num_add ?start ?limit"] by (simp add: body)
  have keys: "date_shaped d \<and>
       (\<exists>k\<in>set (object_keys b). startsWith k ''pre-open-market/'' \<and> endsWith k (d @ ''.csv''))"
    if "d \<in> set (dates body)" for d
  proof -
    from that sub obtain k where k: "k \<in> set objects" and m: "match_date k = Some d"
      by (auto simp: set_collect_dates)
    from R2_list_keys [OF ls k] match_date_Some [OF m] show ?thesis by blast
  qed
  have dist: "distinct (dates body)"
    by (simp add: body distinct_js_slice distinct_collect_dates)
  have desc: "sorted_wrt (\<lambda>x y. y \<le> x) (dates body)"
    by (simp add: body sorted_wrt_js_slice sorted_desc_rev_sort)
  have nonzero: "truthy ?limit"
    by (simp add: truthy_or_default truthy_whole)
  have pages: "totalPages body = whole \<lceil>real (totalCount body) / real_of_int l\<rceil>"
    if "limit body = whole l" for l
  proof -
    from that have l: "?limit = whole l" by (simp add: body)
    with nonzero have "l \<noteq> 0" by (simp add: truthy_whole)
    then show ?thesis by (simp add: body l total_pages_whole)
  qed
  have len: "int (length (dates body)) \<le> l"
    if "page body = whole p \<and> limit body = whole l \<and> 0 < l" for p l
  proof -
    from that have p: "?page = whole p" and l: "?limit = whole l" and pos: "0 < l"
      by (simp_all add: body)
    have "dates body = js_slice ?all (whole ((p - 1) * l)) (whole ((p - 1) * l + l))"
      by (simp add: body p l whole_arith)
    with pos show ?thesis by (simp add: length_js_slice_page)
  qed
  from st keys dist desc pages len show ?thesis by (simp add: body)
qed

text \<open>The store with the data of two days, asked without parameters.\<close>

theorem list_dates_page_witness:
  "listDates bucket_two_days None None = JsonDates 200 body_defaults \<and>
   page body_defaults = whole 1 \<and> limit body_defaults = whole 10 \<and>
   date_shaped ''2024-09-25'' \<and> date_shaped ''2024-09-24'' \<and>
   distinct (dates body_defaults) \<and>
   totalPages body_defaults = whole \<lceil>real (totalCount body_defaults) / real_of_int 10\<rceil> \<and>
   int (length (dates body_defaults)) \<le> 10"
proof -
  have answer: "listDates bucket_two_days None None = JsonDates 200 body_defaults"
    by (rule list_dates_defaults)
  have listed: "''2024-09-25'' \<in> set (dates body_defaults)"
    "''2024-09-24'' \<in> set (dates body_defaults)"
    "page body_defaults = whole 1 \<and> limit body_defaults = whole 10 \<and> (0::int) < 10"
    by (simp_all add: body_defaults_def)
  from list_dates_page [OF answer] listed answer show ?thesis by blast
qed

text \<open>
  With the limit \<open>-1\<close> the page is \<open>slice(0, -1)\<close>: one date, more than the limit. With
  page 2 and the limit \<open>1.5\<close> the page is \<open>slice(1.5, 3)\<close>, which is \<open>slice(1, 3)\<close>: two
  dates, more than the limit.
\<close>

theorem list_dates_limit_counterexample:
  "listDates bucket_two_days None (Some (whole (- 1))) = JsonDates 200 body_negative_limit \<and>
   \<not> num_le (Finite (real (length (dates body_negative_limit)))) (limit body_negative_limit) \<and>
   listDates bucket_three_days (Some (whole 2)) (Some (Finite (3 / 2))) =
     JsonDates 200 body_fractional_limit \<and>
   \<not> num_le (Finite (real (length (dates body_fractional_limit)))) (limit body_fractional_limit)"
  by (simp add: list_dates_eval bucket_two_days_def bucket_three_days_def
      body_negative_limit_def body_fractional_limit_def)

end
